theory Spec2Isabelle
  imports Complex_Main "HOL-Library.Signed_Division"
begin

section \<open>Supermarket simulation: Shop, Balancer and Cashier modules\<close>

text \<open>
  A shallow embedding of \<^verbatim>\<open>supermarket_sim.cc\<close>. Each OMNeT++ simple module is a
  record of its private members; each member function takes the module state (and the
  current simulation time where it calls \<^verbatim>\<open>simTime()\<close>) and returns the new state.

  Conventions of the embedding:
  \<^item> \<^verbatim>\<open>double\<close> and \<^verbatim>\<open>simtime_t\<close> values are real numbers: rounding is not modelled.
  \<^item> A C++ \<^verbatim>\<open>int\<close> is an \<open>int\<close> of HOL; every \<^verbatim>\<open>++\<close> and \<^verbatim>\<open>+=\<close> on an
    \<^verbatim>\<open>int\<close> goes through \<open>wrap32\<close>, the 32-bit two's complement wrap-around that the
    compiled increment performs (the C++ standard leaves signed overflow undefined).
    \<^verbatim>\<open>%\<close> is the truncating remainder \<open>smod\<close>.
  \<^item> Undefined behaviour of other kinds (remainder by zero, a vector index out of range,
    dereferencing an end iterator) and the kernel's refusal to schedule into the past are
    results \<open>Inl e\<close>.
  \<^item> The random number stream is injected: a record of the three draw functions the
    modules call, over an abstract generator state that is threaded through.
  \<^item> Logging (\<^verbatim>\<open>EV\<close>, \<^verbatim>\<open>bubble\<close>) is left out; emitted signals are appended to a
    per-module list.
\<close>

subsection \<open>Integers, errors, random numbers, messages\<close>

definition wrap32 :: "int \<Rightarrow> int" where
  "wrap32 x = (x + 2147483648) mod 4294967296 - 2147483648"

datatype error =
    InvalidScheduleError
  | DivisionByZero
  | IndexOutOfRange
  | EndIteratorDereference

record 'g rng =
  uniform :: "real \<Rightarrow> real \<Rightarrow> 'g \<Rightarrow> real \<times> 'g"
  intuniform :: "int \<Rightarrow> int \<Rightarrow> 'g \<Rightarrow> int \<times> 'g"
  exponential :: "real \<Rightarrow> 'g \<Rightarrow> real \<times> 'g"

text \<open>
  The contract of the injected generator, as far as the modules rely on it: a uniform
  real lies between its bounds, a uniform integer lies between its bounds, and an
  exponential sample with a positive mean is not negative.
\<close>

definition uniform_in_range :: "'g rng \<Rightarrow> bool" where
  "uniform_in_range R \<longleftrightarrow>
     (\<forall>lo hi g. lo \<le> hi \<longrightarrow> lo \<le> fst (uniform R lo hi g) \<and> fst (uniform R lo hi g) \<le> hi)"



text \<open>
  A deterministic generator for concrete runs: its state counts the draws made; a
  uniform draw returns the lower bound, an exponential draw returns the mean.
\<close>

definition counting_rng :: "nat rng" where
  "counting_rng =
     \<lparr> uniform = (\<lambda>lo hi g. (lo, Suc g)),
       intuniform = (\<lambda>lo hi g. (lo, Suc g)),
       exponential = (\<lambda>mean g. (mean, Suc g)) \<rparr>"

text \<open>
  Modelled from the spec: the declaration of \<^verbatim>\<open>CustomerMsg\<close> (the generated header
  \<^verbatim>\<open>supermarket_sim_m.h\<close>) is not among the sources. The fields are those of the
  spec's Customer record, under the names that the getters and setters called in the
  source give them. The modules hold customers by pointer, so \<open>addr\<close> carries the
  identity of the object; no function of the source reads or changes it.
\<close>

record CustomerMsg =
  addr :: nat
  customerId :: int
  numberOfItems :: int
  arrivalTime :: real
  serviceStartTime :: real
  totalWaitingTime :: real

text \<open>
  What a module's \<^verbatim>\<open>handleMessage\<close> can receive: its own timer (the pointer comparison
  \<^verbatim>\<open>msg == timer\<close>), a customer (the \<^verbatim>\<open>dynamic_cast\<close> succeeds), or anything else.
\<close>

datatype cMessage = Timer | Customer CustomerMsg | Other

datatype signal =
    QueueLength int
  | WaitingTime real
  | ServiceTime real
  | IdleTime real
  | LoadBalancing int
  | CustomerGenerated int
  | InterArrivalTime real

text \<open>
  Modelled from the spec: the kernel's \<^verbatim>\<open>scheduleAt\<close> is not in the source file. The
  spec's scheduler registers an event no earlier than the current clock value and fails
  with \<open>InvalidScheduleError\<close> otherwise. The result is the timer's new due time.
\<close>

definition scheduleAt :: "real \<Rightarrow> real \<Rightarrow> error + real option" where
  "scheduleAt now t = (if t < now then Inl InvalidScheduleError else Inr (Some t))"

subsection \<open>Balancer\<close>

datatype BalancingStrategy = ROUND_ROBIN | SHORTEST_QUEUE | RANDOM | UNLISTED int

text \<open>The \<^verbatim>\<open>static_cast\<close> of the integer parameter to the enumeration.\<close>

definition strategy_of_int :: "int \<Rightarrow> BalancingStrategy" where
  "strategy_of_int v =
     (if v = 0 then ROUND_ROBIN
      else if v = 1 then SHORTEST_QUEUE
      else if v = 2 then RANDOM
      else UNLISTED v)"

record Balancer =
  strategy :: BalancingStrategy
  roundRobinCounter :: int
  cashierQueueLengths :: "int list"
  numCashiers :: int
  customersForwarded :: int
  cashierAssignments :: "int list"
  balancerSignals :: "signal list"

text \<open>
  \<^verbatim>\<open>Balancer::initialize\<close>. The two arguments are the value of the \<^verbatim>\<open>strategy\<close>
  parameter and the size of the \<^verbatim>\<open>out\<close> gate vector (a size, hence a \<open>nat\<close>).
\<close>

definition Balancer_initialize :: "int \<Rightarrow> nat \<Rightarrow> Balancer" where
  "Balancer_initialize par_strategy gateSize =
     \<lparr> strategy = strategy_of_int par_strategy,
       roundRobinCounter = 0,
       cashierQueueLengths = replicate gateSize 0,
       numCashiers = int gateSize,
       customersForwarded = 0,
       cashierAssignments = replicate gateSize 0,
       balancerSignals = [] \<rparr>"

text \<open>
  \<^verbatim>\<open>std::min_element\<close> and \<^verbatim>\<open>std::max_element\<close>, as positions: the scan keeps the
  first extremal element and replaces it only by a strictly smaller (larger) one. On an
  empty range both return the end iterator, which is position 0 here.
\<close>

fun min_element_loop :: "int \<Rightarrow> nat \<Rightarrow> nat \<Rightarrow> int list \<Rightarrow> nat" where
  "min_element_loop v smallest i [] = smallest"
| "min_element_loop v smallest i (x # xs) =
     (if x < v then min_element_loop x i (Suc i) xs
      else min_element_loop v smallest (Suc i) xs)"

definition min_element :: "int list \<Rightarrow> nat" where
  "min_element xs = (case xs of [] \<Rightarrow> 0 | x # rest \<Rightarrow> min_element_loop x 0 1 rest)"

fun max_element_loop :: "int \<Rightarrow> nat \<Rightarrow> nat \<Rightarrow> int list \<Rightarrow> nat" where
  "max_element_loop v largest i [] = largest"
| "max_element_loop v largest i (x # xs) =
     (if v < x then max_element_loop x i (Suc i) xs
      else max_element_loop v largest (Suc i) xs)"

definition max_element :: "int list \<Rightarrow> nat" where
  "max_element xs = (case xs of [] \<Rightarrow> 0 | x # rest \<Rightarrow> max_element_loop x 0 1 rest)"

text \<open>
  The spec's words for the shortest-queue choice: position \<open>i\<close> holds a minimal
  count, and every position before it holds a strictly larger one.
\<close>

definition first_minimum :: "int list \<Rightarrow> nat \<Rightarrow> bool" where
  "first_minimum xs i \<longleftrightarrow>
     i < length xs \<and> (\<forall>y \<in> set xs. xs ! i \<le> y) \<and> (\<forall>y \<in> set (take i xs). xs ! i < y)"

definition first_maximum :: "int list \<Rightarrow> nat \<Rightarrow> bool" where
  "first_maximum xs i \<longleftrightarrow>
     i < length xs \<and> (\<forall>y \<in> set xs. y \<le> xs ! i) \<and> (\<forall>y \<in> set (take i xs). y < xs ! i)"

text \<open>
  \<^verbatim>\<open>Balancer::selectCashier\<close>: the selected index, the state (the round-robin counter
  moves) and the generator (the random strategy draws).
\<close>

definition selectCashier :: "'g rng \<Rightarrow> Balancer \<Rightarrow> 'g \<Rightarrow> error + (int \<times> Balancer \<times> 'g)" where
  "selectCashier R b g =
     (case strategy b of
        ROUND_ROBIN \<Rightarrow>
          if numCashiers b = 0 then Inl DivisionByZero
          else Inr (roundRobinCounter b smod numCashiers b,
                    b\<lparr>roundRobinCounter := wrap32 (roundRobinCounter b + 1)\<rparr>, g)
      | SHORTEST_QUEUE \<Rightarrow>
          Inr (wrap32 (int (min_element (cashierQueueLengths b))), b, g)
      | RANDOM \<Rightarrow>
          (case intuniform R 0 (wrap32 (numCashiers b - 1)) g of
             (r, g') \<Rightarrow> Inr (r, b, g'))
      | UNLISTED v \<Rightarrow> Inr (0, b, g))"

text \<open>
  \<^verbatim>\<open>Balancer::handleMessage\<close>: besides the state and the generator, the result holds what
  was sent on the \<^verbatim>\<open>out\<close> gate vector: the gate index and the customer.
\<close>

definition Balancer_handleMessage ::
    "'g rng \<Rightarrow> cMessage \<Rightarrow> Balancer \<Rightarrow> 'g \<Rightarrow> error + (Balancer \<times> (int \<times> CustomerMsg) option \<times> 'g)" where
  "Balancer_handleMessage R msg b g =
     (case msg of
        Customer customer \<Rightarrow>
          (case selectCashier R b g of
             Inl e \<Rightarrow> Inl e
           | Inr (selectedCashier, b1, g1) \<Rightarrow>
               if selectedCashier < 0
                  \<or> int (length (cashierQueueLengths b1)) \<le> selectedCashier
                  \<or> int (length (cashierAssignments b1)) \<le> selectedCashier
               then Inl IndexOutOfRange
               else
                 let i = nat selectedCashier;
                     b2 = b1\<lparr>cashierQueueLengths :=
                             (cashierQueueLengths b1)[i := wrap32 (cashierQueueLengths b1 ! i + 1)]\<rparr>;
                     b3 = b2\<lparr>cashierAssignments :=
                             (cashierAssignments b2)[i := wrap32 (cashierAssignments b2 ! i + 1)]\<rparr>;
                     b4 = b3\<lparr>customersForwarded := wrap32 (customersForwarded b3 + 1)\<rparr>;
                     b5 = b4\<lparr>balancerSignals := balancerSignals b4 @ [LoadBalancing selectedCashier]\<rparr>
                 in Inr (b5, Some (selectedCashier, customer), g1))
      | _ \<Rightarrow> Inr (b, None, g))"

text \<open>
  A run of the balancer: the customers arrive one after the other; the result lists the
  index selected for each, in order.
\<close>

fun route_all ::
    "'g rng \<Rightarrow> CustomerMsg list \<Rightarrow> Balancer \<Rightarrow> 'g \<Rightarrow> error + (int list \<times> Balancer \<times> 'g)" where
  "route_all R [] b g = Inr ([], b, g)"
| "route_all R (customer # rest) b g =
     (case Balancer_handleMessage R (Customer customer) b g of
        Inl e \<Rightarrow> Inl e
      | Inr (b', sent, g') \<Rightarrow>
          (case route_all R rest b' g' of
             Inl e \<Rightarrow> Inl e
           | Inr (sels, b'', g'') \<Rightarrow>
               Inr ((case sent of Some (sel, c) \<Rightarrow> [sel] | None \<Rightarrow> []) @ sels, b'', g'')))"

text \<open>
  The states a balancer can be in between two handler invocations: the state
  \<^verbatim>\<open>initialize\<close> sets up, and every state a successful \<^verbatim>\<open>handleMessage\<close> leaves.
\<close>

inductive reachable_balancer :: "'g rng \<Rightarrow> Balancer \<Rightarrow> bool" for R :: "'g rng" where
  initial: "reachable_balancer R (Balancer_initialize par_strategy gateSize)"
| handled: "reachable_balancer R b \<Longrightarrow>
     Balancer_handleMessage R msg b g = Inr (b', sent, g') \<Longrightarrow>
     reachable_balancer R b'"

text \<open>
  The invariant of the reachable balancer states: the two vectors agree, and every count
  is a value of a 32-bit \<^verbatim>\<open>int\<close>.
\<close>

definition balancer_inv :: "Balancer \<Rightarrow> bool" where
  "balancer_inv b \<longleftrightarrow> cashierQueueLengths b = cashierAssignments b
     \<and> (\<forall>x \<in> set (cashierAssignments b). - 2147483648 \<le> x \<and> x < 2147483648)"

text \<open>The scalars \<^verbatim>\<open>Balancer::finish\<close> records.\<close>

record BalancerScalars =
  scalar_customersForwarded :: real
  scalar_balancingEfficiency :: real
  scalar_cashier_assignments :: "real list"

text \<open>
  \<^verbatim>\<open>Balancer::finish\<close>. On an empty assignment vector \<^verbatim>\<open>std::max_element\<close> returns
  the end iterator, which the source dereferences; the loop that records one scalar per
  cashier reads \<^verbatim>\<open>cashierAssignments[i]\<close> for every \<open>i\<close> below \<^verbatim>\<open>numCashiers\<close>.
\<close>

definition Balancer_finish :: "Balancer \<Rightarrow> error + BalancerScalars" where
  "Balancer_finish b =
     (if cashierAssignments b = [] then Inl EndIteratorDereference
      else if int (length (cashierAssignments b)) < numCashiers b then Inl IndexOutOfRange
      else
        let maxAssignments = real_of_int (cashierAssignments b ! max_element (cashierAssignments b));
            minAssignments = real_of_int (cashierAssignments b ! min_element (cashierAssignments b));
            balancingEfficiency =
              (if maxAssignments > 0 then (minAssignments / maxAssignments) * 100 else 100)
        in Inr \<lparr> scalar_customersForwarded = real_of_int (customersForwarded b),
                 scalar_balancingEfficiency = balancingEfficiency,
                 scalar_cashier_assignments =
                   map (\<lambda>i. real_of_int (cashierAssignments b ! i)) [0..<nat (numCashiers b)] \<rparr>)"

subsection \<open>Cashier\<close>

record Cashier =
  customerQueue :: "CustomerMsg list"
  processCustomerTimer :: "real option"
  isBusy :: bool
  cashierIndex :: int
  currentCustomer :: "CustomerMsg option"
  lastServiceEndTime :: real
  totalIdleTime :: real
  customersServed :: int
  totalServiceTime :: real
  totalItemsProcessed :: int
  cashierSignals :: "signal list"

text \<open>
  \<open>processCustomerTimer\<close> holds the due time of the timer self-message while it is
  scheduled, and \<open>None\<close> otherwise. \<open>currentCustomer\<close> is \<open>None\<close> for the null pointer.
  \<^verbatim>\<open>Cashier::initialize\<close> takes the current time and the module's index.
\<close>

definition Cashier_initialize :: "real \<Rightarrow> int \<Rightarrow> Cashier" where
  "Cashier_initialize now idx =
     \<lparr> customerQueue = [],
       processCustomerTimer = None,
       isBusy = False,
       cashierIndex = idx,
       currentCustomer = None,
       lastServiceEndTime = now,
       totalIdleTime = 0,
       customersServed = 0,
       totalServiceTime = 0,
       totalItemsProcessed = 0,
       cashierSignals = [QueueLength 0] \<rparr>"

text \<open>
  The loop of \<^verbatim>\<open>startService\<close> that adds one \<^verbatim>\<open>uniform(0.5, 2.0)\<close> draw per item to
  \<^verbatim>\<open>serviceTime\<close>; the first argument counts the iterations that remain.
\<close>

fun serviceTime_loop :: "'g rng \<Rightarrow> nat \<Rightarrow> real \<Rightarrow> 'g \<Rightarrow> real \<times> 'g" where
  "serviceTime_loop R 0 serviceTime g = (serviceTime, g)"
| "serviceTime_loop R (Suc n) serviceTime g =
     (case uniform R 0.5 2.0 g of (u, g') \<Rightarrow> serviceTime_loop R n (serviceTime + u) g')"

definition startService ::
    "'g rng \<Rightarrow> real \<Rightarrow> CustomerMsg \<Rightarrow> Cashier \<Rightarrow> 'g \<Rightarrow> error + (Cashier \<times> 'g)" where
  "startService R now customer c g =
     (let c1 = (if \<not> isBusy c
                then c\<lparr>totalIdleTime := totalIdleTime c + (now - lastServiceEndTime c),
                       cashierSignals := cashierSignals c @ [IdleTime (now - lastServiceEndTime c)]\<rparr>
                else c);
          customer1 = customer\<lparr>serviceStartTime := now\<rparr>;
          items = numberOfItems customer1
      in case serviceTime_loop R (nat items) 0 g of
           (serviceTime, g') \<Rightarrow>
             let waitingTime = now - arrivalTime customer1;
                 customer2 = customer1\<lparr>totalWaitingTime := waitingTime\<rparr>;
                 c2 = c1\<lparr>isBusy := True,
                         currentCustomer := Some customer2,
                         cashierSignals :=
                           cashierSignals c1 @ [WaitingTime waitingTime, ServiceTime serviceTime],
                         customersServed := wrap32 (customersServed c1 + 1),
                         totalServiceTime := totalServiceTime c1 + serviceTime,
                         totalItemsProcessed := wrap32 (totalItemsProcessed c1 + items)\<rparr>
             in case scheduleAt now (now + serviceTime) of
                  Inl e \<Rightarrow> Inl e
                | Inr due \<Rightarrow> Inr (c2\<lparr>processCustomerTimer := due\<rparr>, g'))"

definition finishService :: "real \<Rightarrow> Cashier \<Rightarrow> Cashier" where
  "finishService now c =
     (case currentCustomer c of
        Some customer \<Rightarrow> c\<lparr>lastServiceEndTime := now, currentCustomer := None\<rparr>
      | None \<Rightarrow> c)"

definition processNextCustomer :: "'g rng \<Rightarrow> real \<Rightarrow> Cashier \<Rightarrow> 'g \<Rightarrow> error + (Cashier \<times> 'g)" where
  "processNextCustomer R now c g =
     (case customerQueue c of
        customer # rest \<Rightarrow>
          startService R now customer
            (c\<lparr>customerQueue := rest,
               cashierSignals := cashierSignals c @ [QueueLength (int (length rest))]\<rparr>) g
      | [] \<Rightarrow> Inr (c\<lparr>isBusy := False, lastServiceEndTime := now\<rparr>, g))"

text \<open>
  \<^verbatim>\<open>Cashier::handleMessage\<close>. When the kernel delivers the timer it is no longer
  scheduled, so its due time is cleared before the handler's body runs.
\<close>

definition Cashier_handleMessage ::
    "'g rng \<Rightarrow> real \<Rightarrow> cMessage \<Rightarrow> Cashier \<Rightarrow> 'g \<Rightarrow> error + (Cashier \<times> 'g)" where
  "Cashier_handleMessage R now msg c g =
     (case msg of
        Timer \<Rightarrow> processNextCustomer R now (finishService now (c\<lparr>processCustomerTimer := None\<rparr>)) g
      | Customer customer \<Rightarrow>
          let c1 = c\<lparr>customerQueue := customerQueue c @ [customer],
                     cashierSignals :=
                       cashierSignals c @ [QueueLength (int (length (customerQueue c)) + 1)]\<rparr>
          in if \<not> isBusy c1 then processNextCustomer R now c1 g else Inr (c1, g)
      | Other \<Rightarrow> Inr (c, g))"

text \<open>The scalars \<^verbatim>\<open>Cashier::finish\<close> records, in the order of the source.\<close>

record CashierScalars =
  scalar_customersServed :: real
  scalar_totalServiceTime :: real
  scalar_totalIdleTime :: real
  scalar_utilizationRate :: real
  scalar_idleRate :: real
  scalar_averageServiceTime :: real
  scalar_queueLengthAtEnd :: real
  scalar_totalItemsProcessed :: real

text \<open>
  \<^verbatim>\<open>Cashier::finish\<close>, called at the time \<open>now\<close> at which the run ends. The record
  lists the values passed to \<^verbatim>\<open>recordScalar\<close>.
\<close>

definition Cashier_finish :: "real \<Rightarrow> Cashier \<Rightarrow> CashierScalars" where
  "Cashier_finish now c =
     (let c1 = (if \<not> isBusy c
                then c\<lparr>totalIdleTime := totalIdleTime c + (now - lastServiceEndTime c)\<rparr>
                else c);
          simulationTime = now;
          utilizationRate =
            (if simulationTime > 0 then (totalServiceTime c1 / simulationTime) * 100 else 0);
          idleRate =
            (if simulationTime > 0 then (totalIdleTime c1 / simulationTime) * 100 else 0)
      in \<lparr> scalar_customersServed = real_of_int (customersServed c1),
           scalar_totalServiceTime = totalServiceTime c1,
           scalar_totalIdleTime = totalIdleTime c1,
           scalar_utilizationRate = utilizationRate,
           scalar_idleRate = idleRate,
           scalar_averageServiceTime =
             (if customersServed c1 > 0
              then totalServiceTime c1 / real_of_int (customersServed c1) else 0),
           scalar_queueLengthAtEnd = real (length (customerQueue c1)),
           scalar_totalItemsProcessed = real_of_int (totalItemsProcessed c1) \<rparr>)"

text \<open>
  The states a cashier can be in between two handler invocations. The kernel hands a
  customer object to one module at a time, so an arriving customer is none of the objects
  the cashier already holds; the timer is delivered only while it is scheduled, at its
  due time.
\<close>

definition held_addrs :: "Cashier \<Rightarrow> nat set" where
  "held_addrs c = addr ` (set (customerQueue c) \<union> set_option (currentCustomer c))"

inductive reachable_cashier :: "'g rng \<Rightarrow> Cashier \<Rightarrow> bool" for R :: "'g rng" where
  initial: "reachable_cashier R (Cashier_initialize now idx)"
| arrival: "reachable_cashier R c \<Longrightarrow> addr customer \<notin> held_addrs c \<Longrightarrow>
     Cashier_handleMessage R now (Customer customer) c g = Inr (c', g') \<Longrightarrow>
     reachable_cashier R c'"
| completion: "reachable_cashier R c \<Longrightarrow> processCustomerTimer c = Some due \<Longrightarrow>
     Cashier_handleMessage R due Timer c g = Inr (c', g') \<Longrightarrow>
     reachable_cashier R c'"
| other: "reachable_cashier R c \<Longrightarrow>
     Cashier_handleMessage R now Other c g = Inr (c', g') \<Longrightarrow>
     reachable_cashier R c'"

text \<open>
  The invariant of the reachable cashier states: busy exactly when a customer is in
  service; the queued objects are pairwise different and none is the one in service; an
  idle cashier has an empty queue.
\<close>

definition cashier_inv :: "Cashier \<Rightarrow> bool" where
  "cashier_inv c \<longleftrightarrow>
     (isBusy c \<longleftrightarrow> currentCustomer c \<noteq> None)
     \<and> distinct (map addr (customerQueue c))
     \<and> (case currentCustomer c of
          None \<Rightarrow> True
        | Some x \<Rightarrow> addr x \<notin> addr ` set (customerQueue c))
     \<and> (\<not> isBusy c \<longrightarrow> customerQueue c = [])"

text \<open>
  A cashier that has been idle since \<open>t0\<close>: it was initialised at \<open>t0\<close>, or the
  completion handler ran at \<open>t0\<close> and left it idle; messages that are not customers
  do not end the idle interval.
\<close>

inductive idle_since :: "'g rng \<Rightarrow> real \<Rightarrow> Cashier \<Rightarrow> bool" for R :: "'g rng" where
  at_start: "idle_since R t0 (Cashier_initialize t0 idx)"
| after_completion: "Cashier_handleMessage R t0 Timer c0 g0 = Inr (c, g) \<Longrightarrow> \<not> isBusy c \<Longrightarrow>
     idle_since R t0 c"
| no_arrival: "idle_since R t0 c \<Longrightarrow> Cashier_handleMessage R t Other c g = Inr (c', g') \<Longrightarrow>
     idle_since R t0 c'"

text \<open>
  The draws of one service, one after the other, as the spec words them: one
  \<open>Uniform(0.5, 2.0)\<close> draw per item. \<open>after_service_draws\<close> is the generator they leave.
\<close>

fun service_draws :: "'g rng \<Rightarrow> nat \<Rightarrow> 'g \<Rightarrow> real list" where
  "service_draws R 0 g = []"
| "service_draws R (Suc n) g = fst (uniform R 0.5 2.0 g) # service_draws R n (snd (uniform R 0.5 2.0 g))"

fun after_service_draws :: "'g rng \<Rightarrow> nat \<Rightarrow> 'g \<Rightarrow> 'g" where
  "after_service_draws R 0 g = g"
| "after_service_draws R (Suc n) g = after_service_draws R n (snd (uniform R 0.5 2.0 g))"

subsection \<open>Shop\<close>

record Shop =
  generateCustomerTimer :: "real option"
  customerCounter :: int
  arrivalInterval :: real
  customersGenerated :: int
  shopSignals :: "signal list"

text \<open>
  \<^verbatim>\<open>Shop::initialize\<close> takes the current time and the value of the
  \<^verbatim>\<open>arrivalInterval\<close> parameter. It makes no draw, so it takes no generator.
\<close>

definition Shop_initialize :: "real \<Rightarrow> real \<Rightarrow> error + Shop" where
  "Shop_initialize now par_arrivalInterval =
     (let s = \<lparr> generateCustomerTimer = None,
                customerCounter = 1,
                arrivalInterval = par_arrivalInterval,
                customersGenerated = 0,
                shopSignals = [] \<rparr>
      in case scheduleAt now (now + 0.1) of
           Inl e \<Rightarrow> Inl e
         | Inr due \<Rightarrow> Inr (s\<lparr>generateCustomerTimer := due\<rparr>))"

text \<open>
  \<^verbatim>\<open>Shop::generateCustomer\<close>. \<open>fresh\<close> is the object \<^verbatim>\<open>new CustomerMsg\<close> returns, before
  the setters run. The result holds the customer sent on the \<^verbatim>\<open>out\<close> gate.
\<close>

definition generateCustomer ::
    "'g rng \<Rightarrow> real \<Rightarrow> CustomerMsg \<Rightarrow> Shop \<Rightarrow> 'g \<Rightarrow> Shop \<times> CustomerMsg \<times> 'g" where
  "generateCustomer R now fresh s g =
     (let customer1 = fresh\<lparr>customerId := customerCounter s\<rparr>;
          s1 = s\<lparr>customerCounter := wrap32 (customerCounter s + 1)\<rparr>
      in case intuniform R 1 25 g of
           (items, g') \<Rightarrow>
             let customer2 = customer1\<lparr>numberOfItems := items\<rparr>;
                 customer3 = customer2\<lparr>arrivalTime := now\<rparr>;
                 s2 = s1\<lparr>customersGenerated := wrap32 (customersGenerated s1 + 1)\<rparr>;
                 s3 = s2\<lparr>shopSignals := shopSignals s2 @ [CustomerGenerated (customersGenerated s2)]\<rparr>
             in (s3, customer3, g'))"

definition Shop_handleMessage ::
    "'g rng \<Rightarrow> real \<Rightarrow> CustomerMsg \<Rightarrow> cMessage \<Rightarrow> Shop \<Rightarrow> 'g \<Rightarrow>
       error + (Shop \<times> CustomerMsg option \<times> 'g)" where
  "Shop_handleMessage R now fresh msg s g =
     (case msg of
        Timer \<Rightarrow>
          (case generateCustomer R now fresh (s\<lparr>generateCustomerTimer := None\<rparr>) g of
             (s1, customer, g1) \<Rightarrow>
               (case exponential R (arrivalInterval s1) g1 of
                  (nextArrival, g2) \<Rightarrow>
                    let s2 = s1\<lparr>shopSignals := shopSignals s1 @ [InterArrivalTime nextArrival]\<rparr>
                    in case scheduleAt now (now + nextArrival) of
                         Inl e \<Rightarrow> Inl e
                       | Inr due \<Rightarrow> Inr (s2\<lparr>generateCustomerTimer := due\<rparr>, Some customer, g2)))
      | _ \<Rightarrow> Inr (s, None, g))"


text \<open>The scalar \<^verbatim>\<open>Shop::finish\<close> records.\<close>

definition Shop_finish :: "Shop \<Rightarrow> real" where
  "Shop_finish s = real_of_int (customersGenerated s)"

section \<open>Properties\<close>

subsection \<open>Arithmetic of the machine integers\<close>

lemma wrap32_id: "- 2147483648 \<le> x \<Longrightarrow> x < 2147483648 \<Longrightarrow> wrap32 x = x"
  unfolding wrap32_def by simp

lemma smod_nonneg: "0 \<le> a \<Longrightarrow> 0 < b \<Longrightarrow> a smod (b::int) = a mod b"
  by (simp add: signed_modulo_int_def sgn_if)

subsection \<open>Round robin\<close>

lemma roundRobin_step:
  assumes "strategy b = ROUND_ROBIN" "numCashiers b = int N" "0 < N"
    "length (cashierQueueLengths b) = N" "length (cashierAssignments b) = N"
    "0 \<le> roundRobinCounter b"
  shows "Balancer_handleMessage R (Customer c) b g =
     Inr (b\<lparr>roundRobinCounter := wrap32 (roundRobinCounter b + 1),
            cashierQueueLengths := (cashierQueueLengths b)[nat (roundRobinCounter b mod int N) :=
               wrap32 (cashierQueueLengths b ! nat (roundRobinCounter b mod int N) + 1)],
            cashierAssignments := (cashierAssignments b)[nat (roundRobinCounter b mod int N) :=
               wrap32 (cashierAssignments b ! nat (roundRobinCounter b mod int N) + 1)],
            customersForwarded := wrap32 (customersForwarded b + 1),
            balancerSignals := balancerSignals b @ [LoadBalancing (roundRobinCounter b mod int N)]\<rparr>,
          Some (roundRobinCounter b mod int N, c), g)"
proof -
  have r: "\<not> roundRobinCounter b mod int N < 0" "\<not> int N \<le> roundRobinCounter b mod int N"
    using assms by (simp_all add: not_less not_le)
  show ?thesis
    using assms
    by (simp add: Balancer_handleMessage_def selectCashier_def smod_nonneg Let_def r)
qed

lemma roundRobin_run:
  assumes "strategy b = ROUND_ROBIN" "numCashiers b = int N" "0 < N"
    "length (cashierQueueLengths b) = N" "length (cashierAssignments b) = N"
    "0 \<le> roundRobinCounter b" "roundRobinCounter b + int (length cs) \<le> 2147483648"
  shows "\<exists>b'. route_all R cs b g =
     Inr (map (\<lambda>k. (roundRobinCounter b + int k) mod int N) [0..<length cs], b', g)"
  using assms
proof (induction cs arbitrary: b)
  case Nil
  then show ?case by simp
next
  case (Cons c cs)
  let ?sel = "roundRobinCounter b mod int N"
  let ?b1 = "b\<lparr>roundRobinCounter := wrap32 (roundRobinCounter b + 1),
            cashierQueueLengths := (cashierQueueLengths b)[nat ?sel :=
               wrap32 (cashierQueueLengths b ! nat ?sel + 1)],
            cashierAssignments := (cashierAssignments b)[nat ?sel :=
               wrap32 (cashierAssignments b ! nat ?sel + 1)],
            customersForwarded := wrap32 (customersForwarded b + 1),
            balancerSignals := balancerSignals b @ [LoadBalancing ?sel]\<rparr>"
  have step: "Balancer_handleMessage R (Customer c) b g = Inr (?b1, Some (?sel, c), g)"
    using Cons.prems by (intro roundRobin_step) auto
  have "\<exists>b'. route_all R cs ?b1 g =
     Inr (map (\<lambda>k. (roundRobinCounter b + 1 + int k) mod int N) [0..<length cs], b', g)"
  proof (cases cs)
    case Nil
    then show ?thesis by simp
  next
    case (Cons d ds)
    then have w: "wrap32 (roundRobinCounter b + 1) = roundRobinCounter b + 1"
      using Cons.prems by (intro wrap32_id) auto
    have "\<exists>b'. route_all R cs ?b1 g =
       Inr (map (\<lambda>k. (roundRobinCounter ?b1 + int k) mod int N) [0..<length cs], b', g)"
      using Cons.prems w by (intro Cons.IH) auto
    then show ?thesis using w by simp
  qed
  then obtain b' where rest: "route_all R cs ?b1 g =
     Inr (map (\<lambda>k. (roundRobinCounter b + 1 + int k) mod int N) [0..<length cs], b', g)"
    by auto
  have m: "map (\<lambda>k. (roundRobinCounter b + int k) mod int N) [0..<length (c # cs)] =
     ?sel # map (\<lambda>k. (roundRobinCounter b + 1 + int k) mod int N) [0..<length cs]"
    by (simp add: upt_rec[of 0] map_Suc_upt[symmetric] del: upt_Suc)
       (simp add: add.commute add.left_commute)
  show ?case
    using step rest m by simp
qed

lemma route_all_append:
  "route_all R (xs @ ys) b g =
     (case route_all R xs b g of
        Inl e \<Rightarrow> Inl e
      | Inr (s1, b1, g1) \<Rightarrow>
          (case route_all R ys b1 g1 of
             Inl e \<Rightarrow> Inl e
           | Inr (s2, b2, g2) \<Rightarrow> Inr (s1 @ s2, b2, g2)))"
  by (induction xs arbitrary: b g) (auto split: sum.splits prod.splits option.splits)

lemma roundRobin_run_final:
  assumes "strategy b = ROUND_ROBIN" "numCashiers b = int N" "0 < N"
    "length (cashierQueueLengths b) = N" "length (cashierAssignments b) = N"
    "0 \<le> roundRobinCounter b" "roundRobinCounter b < 2147483648"
    "roundRobinCounter b + int (length cs) \<le> 2147483648"
  shows "\<exists>sels b'. route_all R cs b g = Inr (sels, b', g)
     \<and> strategy b' = ROUND_ROBIN \<and> numCashiers b' = int N
     \<and> length (cashierQueueLengths b') = N \<and> length (cashierAssignments b') = N
     \<and> roundRobinCounter b' = wrap32 (roundRobinCounter b + int (length cs))"
  using assms
proof (induction cs arbitrary: b)
  case Nil
  then have "wrap32 (roundRobinCounter b) = roundRobinCounter b"
    by (intro wrap32_id) auto
  then show ?case using Nil by simp
next
  case (Cons c cs)
  let ?sel = "roundRobinCounter b mod int N"
  let ?b1 = "b\<lparr>roundRobinCounter := wrap32 (roundRobinCounter b + 1),
            cashierQueueLengths := (cashierQueueLengths b)[nat ?sel :=
               wrap32 (cashierQueueLengths b ! nat ?sel + 1)],
            cashierAssignments := (cashierAssignments b)[nat ?sel :=
               wrap32 (cashierAssignments b ! nat ?sel + 1)],
            customersForwarded := wrap32 (customersForwarded b + 1),
            balancerSignals := balancerSignals b @ [LoadBalancing ?sel]\<rparr>"
  have step: "Balancer_handleMessage R (Customer c) b g = Inr (?b1, Some (?sel, c), g)"
    using Cons.prems by (intro roundRobin_step) auto
  have "\<exists>sels b'. route_all R cs ?b1 g = Inr (sels, b', g)
     \<and> strategy b' = ROUND_ROBIN \<and> numCashiers b' = int N
     \<and> length (cashierQueueLengths b') = N \<and> length (cashierAssignments b') = N
     \<and> roundRobinCounter b' = wrap32 (roundRobinCounter b + 1 + int (length cs))"
  proof (cases cs)
    case Nil
    then show ?thesis using Cons.prems by simp
  next
    case (Cons d ds)
    then have lt: "roundRobinCounter b + 1 < 2147483648"
      using Cons.prems by auto
    then have w: "wrap32 (roundRobinCounter b + 1) = roundRobinCounter b + 1"
      using Cons.prems by (intro wrap32_id) auto
    have "\<exists>sels b'. route_all R cs ?b1 g = Inr (sels, b', g)
       \<and> strategy b' = ROUND_ROBIN \<and> numCashiers b' = int N
       \<and> length (cashierQueueLengths b') = N \<and> length (cashierAssignments b') = N
       \<and> roundRobinCounter b' = wrap32 (roundRobinCounter ?b1 + int (length cs))"
      using Cons.prems w lt by (intro Cons.IH) auto
    then show ?thesis using w by simp
  qed
  then obtain sels b' where rest: "route_all R cs ?b1 g = Inr (sels, b', g)"
      "strategy b' = ROUND_ROBIN" "numCashiers b' = int N"
      "length (cashierQueueLengths b') = N" "length (cashierAssignments b') = N"
      "roundRobinCounter b' = wrap32 (roundRobinCounter b + 1 + int (length cs))"
    by blast
  have "route_all R (c # cs) b g = Inr (?sel # sels, b', g)"
    using step rest(1) by simp
  moreover have "roundRobinCounter b' = wrap32 (roundRobinCounter b + int (length (c # cs)))"
    using rest(6) by (simp add: add.commute add.left_commute)
  ultimately show ?case using rest(2-5) by blast
qed

lemma roundRobin_after_overflow:
  assumes "strategy b = ROUND_ROBIN" "numCashiers b = 3" "roundRobinCounter b = - 2147483648"
  shows "Balancer_handleMessage R (Customer c) b g = Inl IndexOutOfRange"
  using assms
  by (simp add: Balancer_handleMessage_def selectCashier_def signed_modulo_int_def)

text \<open>
  Claim C1 as stated fails: the counter is a 32-bit \<^verbatim>\<open>int\<close> that is never reduced.
  With 3 servers, the first \<open>2^31\<close> routing decisions (\<open>k = 0, \<dots>, 2^31 - 1\<close>) succeed
  and leave the counter wrapped around to \<open>-2^31\<close>. The decision with \<open>k = 2^31\<close>
  should select \<open>2^31 mod 3 = 2\<close>; the source computes \<^verbatim>\<open>roundRobinCounter % numCashiers\<close>,
  which is \<open>-2\<close>, and indexes the vectors with it, so the run fails there.
\<close>

theorem roundRobin_every_k_counterexample:
  "route_all counting_rng
      (replicate 2147483648 \<lparr>addr = 0, customerId = 1, numberOfItems = 1, arrivalTime = 0,
                              serviceStartTime = 0, totalWaitingTime = 0\<rparr>
       @ [\<lparr>addr = 0, customerId = 1, numberOfItems = 1, arrivalTime = 0,
            serviceStartTime = 0, totalWaitingTime = 0\<rparr>])
      (Balancer_initialize 0 3) 0 = Inl IndexOutOfRange
   \<and> (2147483648 :: int) mod 3 = 2
   \<and> (- 2147483648 :: int) smod 3 = - 2"
proof -
  let ?c = "\<lparr>addr = 0, customerId = 1, numberOfItems = 1, arrivalTime = 0,
             serviceStartTime = 0, totalWaitingTime = (0::real)\<rparr>"
  let ?b = "Balancer_initialize 0 3"
  have "\<exists>sels b'. route_all counting_rng (replicate 2147483648 ?c) ?b 0 = Inr (sels, b', 0)
     \<and> strategy b' = ROUND_ROBIN \<and> numCashiers b' = int 3
     \<and> length (cashierQueueLengths b') = 3 \<and> length (cashierAssignments b') = 3
     \<and> roundRobinCounter b' = wrap32 (roundRobinCounter ?b + int (length (replicate 2147483648 ?c)))"
    by (intro roundRobin_run_final) (simp_all add: Balancer_initialize_def strategy_of_int_def)
  then obtain sels b' where r: "route_all counting_rng (replicate 2147483648 ?c) ?b 0 = Inr (sels, b', 0)"
      "strategy b' = ROUND_ROBIN" "numCashiers b' = 3"
      "roundRobinCounter b' = wrap32 (roundRobinCounter ?b + int (length (replicate 2147483648 ?c)))"
    by auto
  have "roundRobinCounter b' = - 2147483648"
    using r(4) by (simp add: Balancer_initialize_def wrap32_def)
  then have "Balancer_handleMessage counting_rng (Customer ?c) b' 0 = Inl IndexOutOfRange"
    using r(2,3) by (intro roundRobin_after_overflow)
  then have "route_all counting_rng (replicate 2147483648 ?c @ [?c]) ?b 0 = Inl IndexOutOfRange"
    using r(1) by (simp add: route_all_append)
  then show ?thesis by (simp add: signed_modulo_int_def)
qed

text \<open>
  Claim C1, amended. A balancer initialised with the round-robin strategy (parameter
  value 0) and \<open>N \<ge> 1\<close> cashiers routes the customers of a run, in order, to the indices
  \<open>0 mod N, 1 mod N, 2 mod N, \<dots>\<close>: the \<open>k\<close>-th routing decision, counted from 0,
  selects \<open>k mod N\<close>, for every \<open>k < 2^31\<close>. That is the range in which the counter, a
  C++ \<^verbatim>\<open>int\<close> that starts at 0 and is incremented after every decision, still holds
  \<open>k\<close>. No decision of such a run fails and none draws from the generator. With 3
  servers, 7 consecutive arrivals go to \<open>[0, 1, 2, 0, 1, 2, 0]\<close>.
\<close>

theorem roundRobin_selects_k_mod_N:
  assumes "1 \<le> N" and "length customers \<le> 2147483648"
  shows "\<exists>b'. route_all R customers (Balancer_initialize 0 N) g =
           Inr (map (\<lambda>k. int k mod int N) [0..<length customers], b', g)"
proof -
  let ?b = "Balancer_initialize 0 N"
  have "\<exists>b'. route_all R customers ?b g =
     Inr (map (\<lambda>k. (roundRobinCounter ?b + int k) mod int N) [0..<length customers], b', g)"
    using assms
    by (intro roundRobin_run) (simp_all add: Balancer_initialize_def strategy_of_int_def)
  then show ?thesis
    by (simp add: Balancer_initialize_def)
qed

theorem roundRobin_three_servers_seven_arrivals:
  "\<exists>b'. route_all counting_rng
      (replicate 7 \<lparr>addr = 0, customerId = 1, numberOfItems = 1, arrivalTime = 0,
                     serviceStartTime = 0, totalWaitingTime = 0\<rparr>)
      (Balancer_initialize 0 3) 0 = Inr ([0, 1, 2, 0, 1, 2, 0], b', 0)"
  using roundRobin_selects_k_mod_N
    [of 3 "replicate 7 \<lparr>addr = 0, customerId = 1, numberOfItems = 1, arrivalTime = 0,
                          serviceStartTime = 0, totalWaitingTime = 0\<rparr>" counting_rng 0]
  by (simp add: upt_rec)

subsection \<open>Shortest queue\<close>

lemma min_element_loop_first_minimum:
  assumes "length pre = i" "smallest < i" "pre ! smallest = v"
    "\<forall>y \<in> set pre. v \<le> y" "\<forall>y \<in> set (take smallest pre). v < y"
  shows "first_minimum (pre @ xs) (min_element_loop v smallest i xs)"
  using assms
proof (induction xs arbitrary: pre i smallest v)
  case Nil
  then show ?case by (simp add: first_minimum_def)
next
  case (Cons x xs)
  show ?case
  proof (cases "x < v")
    case True
    have "first_minimum ((pre @ [x]) @ xs) (min_element_loop x i (Suc i) xs)"
    proof (rule Cons.IH)
      show "\<forall>y\<in>set (pre @ [x]). x \<le> y" using Cons.prems True by auto
      show "\<forall>y\<in>set (take i (pre @ [x])). x < y" using Cons.prems True by auto
    qed (use Cons.prems in \<open>auto simp: nth_append\<close>)
    then show ?thesis using True by simp
  next
    case False
    have "first_minimum ((pre @ [x]) @ xs) (min_element_loop v smallest (Suc i) xs)"
    proof (rule Cons.IH)
      show "\<forall>y\<in>set (pre @ [x]). v \<le> y" using Cons.prems False by auto
      show "\<forall>y\<in>set (take smallest (pre @ [x])). v < y" using Cons.prems False by auto
    qed (use Cons.prems in \<open>auto simp: nth_append\<close>)
    then show ?thesis using False by simp
  qed
qed

lemma min_element_first_minimum: "xs \<noteq> [] \<Longrightarrow> first_minimum xs (min_element xs)"
proof (cases xs)
  case Nil
  then show "xs \<noteq> [] \<Longrightarrow> ?thesis" by simp
next
  case (Cons x rest)
  have "first_minimum ([x] @ rest) (min_element_loop x 0 1 rest)"
    by (rule min_element_loop_first_minimum) auto
  then show ?thesis using Cons by (simp add: min_element_def)
qed

lemma first_minimum_unique:
  assumes "first_minimum xs i" "first_minimum xs j"
  shows "i = j"
proof (rule ccontr)
  assume "i \<noteq> j"
  then consider "i < j" | "j < i" by linarith
  then show False
  proof cases
    case 1
    then have "xs ! i \<in> set (take j xs)"
      using assms by (auto simp: first_minimum_def in_set_conv_nth intro!: exI[of _ i])
    then have "xs ! j < xs ! i" using assms by (auto simp: first_minimum_def)
    moreover have "xs ! i \<le> xs ! j" using assms by (auto simp: first_minimum_def)
    ultimately show False by simp
  next
    case 2
    then have "xs ! j \<in> set (take i xs)"
      using assms by (auto simp: first_minimum_def in_set_conv_nth intro!: exI[of _ j])
    then have "xs ! i < xs ! j" using assms by (auto simp: first_minimum_def)
    moreover have "xs ! j \<le> xs ! i" using assms by (auto simp: first_minimum_def)
    ultimately show False by simp
  qed
qed

lemma shortestQueue_step:
  assumes "strategy b = SHORTEST_QUEUE" "cashierQueueLengths b \<noteq> []"
    "length (cashierQueueLengths b) \<le> 2147483647"
    "length (cashierAssignments b) = length (cashierQueueLengths b)"
  shows "Balancer_handleMessage R (Customer c) b g =
     Inr (b\<lparr>cashierQueueLengths := (cashierQueueLengths b)[min_element (cashierQueueLengths b) :=
               wrap32 (cashierQueueLengths b ! min_element (cashierQueueLengths b) + 1)],
            cashierAssignments := (cashierAssignments b)[min_element (cashierQueueLengths b) :=
               wrap32 (cashierAssignments b ! min_element (cashierQueueLengths b) + 1)],
            customersForwarded := wrap32 (customersForwarded b + 1),
            balancerSignals := balancerSignals b @ [LoadBalancing (int (min_element (cashierQueueLengths b)))]\<rparr>,
          Some (int (min_element (cashierQueueLengths b)), c), g)"
proof -
  let ?i = "min_element (cashierQueueLengths b)"
  have lt: "?i < length (cashierQueueLengths b)"
    using min_element_first_minimum[OF assms(2)] by (simp add: first_minimum_def)
  then have w: "wrap32 (int ?i) = int ?i"
    using assms(3) by (intro wrap32_id) auto
  have r: "\<not> int (length (cashierQueueLengths b)) \<le> int ?i" using lt by simp
  show ?thesis
    using assms lt
    by (simp add: Balancer_handleMessage_def selectCashier_def Let_def w)
qed

lemma first_minimum_replicate: "0 < n \<Longrightarrow> first_minimum (replicate n v) 0"
  by (simp add: first_minimum_def)

lemma first_minimum_after_first:
  "first_minimum ((v + 1) # v # replicate n v) (Suc 0)"
  by (auto simp: first_minimum_def)

text \<open>
  Claim C2. Under the shortest-queue strategy a routing decision succeeds, draws nothing
  and selects the first minimum of the locally tracked counts \<open>cashierQueueLengths\<close>:
  the selected position holds a minimal count and every earlier position holds a strictly
  larger one. When at least two servers are tracked and all counts are tied (at a value
  an \<^verbatim>\<open>int\<close> can still be incremented from), two consecutive arrivals go to server 0
  and then to server 1. The state is any balancer state whose two vectors have the same
  non-zero length, as \<^verbatim>\<open>initialize\<close> sets them up.
\<close>

theorem shortestQueue_selects_first_minimum:
  assumes "strategy b = SHORTEST_QUEUE"
    and "cashierQueueLengths b \<noteq> []"
    and "length (cashierQueueLengths b) \<le> 2147483647"
    and "length (cashierAssignments b) = length (cashierQueueLengths b)"
  shows "(\<exists>i b'. Balancer_handleMessage R (Customer c) b g = Inr (b', Some (int i, c), g)
            \<and> first_minimum (cashierQueueLengths b) i)
       \<and> (2 \<le> length (cashierQueueLengths b)
            \<and> (\<exists>v. - 2147483648 \<le> v \<and> v < 2147483647
                  \<and> cashierQueueLengths b = replicate (length (cashierQueueLengths b)) v)
          \<longrightarrow> (\<exists>b'. route_all R [c, d] b g = Inr ([0, 1], b', g)))"
proof (intro conjI impI)
  show "\<exists>i b'. Balancer_handleMessage R (Customer c) b g = Inr (b', Some (int i, c), g)
            \<and> first_minimum (cashierQueueLengths b) i"
    using shortestQueue_step[OF assms, of R c g] min_element_first_minimum[OF assms(2)]
    by (intro exI[of _ "min_element (cashierQueueLengths b)"] exI conjI) (assumption+)
next
  assume tie: "2 \<le> length (cashierQueueLengths b)
            \<and> (\<exists>v. - 2147483648 \<le> v \<and> v < 2147483647
                  \<and> cashierQueueLengths b = replicate (length (cashierQueueLengths b)) v)"
  then obtain v n where v: "- 2147483648 \<le> v" "v < 2147483647"
    and xs: "cashierQueueLengths b = v # v # replicate n v"
    and len: "length (cashierQueueLengths b) = Suc (Suc n)"
  proof -
    from tie obtain v where a: "- 2147483648 \<le> v" "v < 2147483647"
      "cashierQueueLengths b = replicate (length (cashierQueueLengths b)) v" by blast
    from tie obtain n where n: "length (cashierQueueLengths b) = Suc (Suc n)"
      by (metis Suc_le_D numeral_2_eq_2 Suc_le_mono)
    have "cashierQueueLengths b = v # v # replicate n v"
      using a(3) n by (metis replicate_Suc)
    then show ?thesis using that a n by blast
  qed
  have m0: "min_element (cashierQueueLengths b) = 0"
    using first_minimum_unique[OF min_element_first_minimum[OF assms(2)]]
      first_minimum_replicate[of "Suc (Suc n)" v] xs by simp
  have w: "wrap32 (v + 1) = v + 1" using v by (intro wrap32_id) auto
  let ?b1 = "b\<lparr>cashierQueueLengths := (cashierQueueLengths b)[0 := wrap32 (cashierQueueLengths b ! 0 + 1)],
            cashierAssignments := (cashierAssignments b)[0 := wrap32 (cashierAssignments b ! 0 + 1)],
            customersForwarded := wrap32 (customersForwarded b + 1),
            balancerSignals := balancerSignals b @ [LoadBalancing 0]\<rparr>"
  have s1: "Balancer_handleMessage R (Customer c) b g = Inr (?b1, Some (0, c), g)"
    using shortestQueue_step[OF assms, of R c g] m0 by simp
  have xs1: "cashierQueueLengths ?b1 = (v + 1) # v # replicate n v"
    using xs w by simp
  have ne1: "cashierQueueLengths ?b1 \<noteq> []" using xs1 by simp
  have m1: "min_element (cashierQueueLengths ?b1) = Suc 0"
    using first_minimum_unique[OF min_element_first_minimum[OF ne1]]
      first_minimum_after_first[of v n] xs1 by simp
  have "\<exists>b2. Balancer_handleMessage R (Customer d) ?b1 g = Inr (b2, Some (1, d), g)"
    using shortestQueue_step[of ?b1 R d g] assms m1 ne1 by simp
  then show "\<exists>b'. route_all R [c, d] b g = Inr ([0, 1], b', g)"
    using s1 by auto
qed

theorem shortestQueue_tied_start_witness:
  "(\<exists>i b'. Balancer_handleMessage counting_rng
       (Customer \<lparr>addr = 0, customerId = 1, numberOfItems = 4, arrivalTime = 0,
                   serviceStartTime = 0, totalWaitingTime = 0\<rparr>)
       (Balancer_initialize 1 3) 0 =
         Inr (b', Some (int i, \<lparr>addr = 0, customerId = 1, numberOfItems = 4, arrivalTime = 0,
                   serviceStartTime = 0, totalWaitingTime = 0\<rparr>), 0)
       \<and> first_minimum [0, 0, 0] i)
   \<and> (\<exists>b'. route_all counting_rng
       [\<lparr>addr = 0, customerId = 1, numberOfItems = 4, arrivalTime = 0,
          serviceStartTime = 0, totalWaitingTime = 0\<rparr>,
        \<lparr>addr = 1, customerId = 2, numberOfItems = 9, arrivalTime = 1,
          serviceStartTime = 0, totalWaitingTime = 0\<rparr>]
       (Balancer_initialize 1 3) 0 = Inr ([0, 1], b', 0))"
  using shortestQueue_selects_first_minimum
    [of "Balancer_initialize 1 3" counting_rng
        "\<lparr>addr = 0, customerId = 1, numberOfItems = 4, arrivalTime = 0,
          serviceStartTime = 0, totalWaitingTime = 0\<rparr>" 0
        "\<lparr>addr = 1, customerId = 2, numberOfItems = 9, arrivalTime = 1,
          serviceStartTime = 0, totalWaitingTime = 0\<rparr>"]
  by (simp add: Balancer_initialize_def strategy_of_int_def numeral_3_eq_3)

subsection \<open>Balancing efficiency\<close>

lemma max_element_loop_first_maximum:
  assumes "length pre = i" "largest < i" "pre ! largest = v"
    "\<forall>y \<in> set pre. y \<le> v" "\<forall>y \<in> set (take largest pre). y < v"
  shows "first_maximum (pre @ xs) (max_element_loop v largest i xs)"
  using assms
proof (induction xs arbitrary: pre i largest v)
  case Nil
  then show ?case by (simp add: first_maximum_def)
next
  case (Cons x xs)
  show ?case
  proof (cases "v < x")
    case True
    have "first_maximum ((pre @ [x]) @ xs) (max_element_loop x i (Suc i) xs)"
    proof (rule Cons.IH)
      show "\<forall>y\<in>set (pre @ [x]). y \<le> x" using Cons.prems True by auto
      show "\<forall>y\<in>set (take i (pre @ [x])). y < x" using Cons.prems True by auto
    qed (use Cons.prems in \<open>auto simp: nth_append\<close>)
    then show ?thesis using True by simp
  next
    case False
    have "first_maximum ((pre @ [x]) @ xs) (max_element_loop v largest (Suc i) xs)"
    proof (rule Cons.IH)
      show "\<forall>y\<in>set (pre @ [x]). y \<le> v" using Cons.prems False by auto
      show "\<forall>y\<in>set (take largest (pre @ [x])). y < v" using Cons.prems False by auto
    qed (use Cons.prems in \<open>auto simp: nth_append\<close>)
    then show ?thesis using False by simp
  qed
qed

lemma max_element_first_maximum: "xs \<noteq> [] \<Longrightarrow> first_maximum xs (max_element xs)"
proof (cases xs)
  case Nil
  then show "xs \<noteq> [] \<Longrightarrow> ?thesis" by simp
next
  case (Cons x rest)
  have "first_maximum ([x] @ rest) (max_element_loop x 0 1 rest)"
    by (rule max_element_loop_first_maximum) auto
  then show ?thesis using Cons by (simp add: max_element_def)
qed

lemma nth_min_element: "xs \<noteq> [] \<Longrightarrow> xs ! min_element xs = Min (set xs)"
  using min_element_first_minimum[of xs]
  by (intro Min_eqI[symmetric]) (auto simp: first_minimum_def)

lemma nth_max_element: "xs \<noteq> [] \<Longrightarrow> xs ! max_element xs = Max (set xs)"
  using max_element_first_maximum[of xs]
  by (intro Max_eqI[symmetric]) (auto simp: first_maximum_def)

lemma Balancer_finish_efficiency:
  assumes "cashierAssignments b \<noteq> []"
    and "numCashiers b \<le> int (length (cashierAssignments b))"
  shows "\<exists>r. Balancer_finish b = Inr r \<and> scalar_balancingEfficiency r =
     (if 0 < Max (set (cashierAssignments b))
      then real_of_int (Min (set (cashierAssignments b))) / real_of_int (Max (set (cashierAssignments b))) * 100
      else 100)"
  using assms by (simp add: Balancer_finish_def Let_def nth_min_element nth_max_element)

text \<open>
  Claim C9. For every non-empty vector of per-server assignment counts,
  \<^verbatim>\<open>Balancer::finish\<close> succeeds and the balancing efficiency it records is
  \<open>min / max * 100\<close> when the largest count is positive, is 100 when all counts are
  equal, and is 100 when all counts are 0 (the division is not evaluated then).
\<close>

theorem balancingEfficiency_min_over_max:
  assumes "cashierAssignments b \<noteq> []"
    and "numCashiers b \<le> int (length (cashierAssignments b))"
  shows "\<exists>r. Balancer_finish b = Inr r
     \<and> (0 < Max (set (cashierAssignments b)) \<longrightarrow>
          scalar_balancingEfficiency r =
            real_of_int (Min (set (cashierAssignments b)))
              / real_of_int (Max (set (cashierAssignments b))) * 100)
     \<and> ((\<forall>x \<in> set (cashierAssignments b). \<forall>y \<in> set (cashierAssignments b). x = y) \<longrightarrow>
          scalar_balancingEfficiency r = 100)
     \<and> ((\<forall>x \<in> set (cashierAssignments b). x = 0) \<longrightarrow> scalar_balancingEfficiency r = 100)"
proof -
  let ?xs = "cashierAssignments b"
  obtain r where r: "Balancer_finish b = Inr r" and e: "scalar_balancingEfficiency r =
     (if 0 < Max (set ?xs) then real_of_int (Min (set ?xs)) / real_of_int (Max (set ?xs)) * 100
      else 100)"
    using Balancer_finish_efficiency[OF assms] by blast
  have mem: "Min (set ?xs) \<in> set ?xs" "Max (set ?xs) \<in> set ?xs"
    using assms(1) by (simp_all add: Min_in Max_in)
  have eq: "scalar_balancingEfficiency r = 100"
    if "\<forall>x \<in> set ?xs. \<forall>y \<in> set ?xs. x = y"
  proof -
    have "Min (set ?xs) = Max (set ?xs)" using that mem by blast
    then show ?thesis using e by simp
  qed
  have z: "scalar_balancingEfficiency r = 100" if "\<forall>x \<in> set ?xs. x = 0"
  proof (rule eq)
    show "\<forall>x \<in> set ?xs. \<forall>y \<in> set ?xs. x = y"
    proof (intro ballI)
      fix x y assume "x \<in> set ?xs" "y \<in> set ?xs"
      then have "x = 0" "y = 0" using that by blast+
      then show "x = y" by simp
    qed
  qed
  show ?thesis using r e eq z by auto
qed

theorem balancingEfficiency_witness:
  "(\<exists>r. Balancer_finish ((Balancer_initialize 2 2)
            \<lparr>cashierQueueLengths := [2, 4], customersForwarded := 6,
             cashierAssignments := [2, 4]\<rparr>) = Inr r
       \<and> scalar_balancingEfficiency r = 50)
   \<and> (\<exists>r. Balancer_finish ((Balancer_initialize 0 2)
            \<lparr>roundRobinCounter := 6, cashierQueueLengths := [3, 3], customersForwarded := 6,
             cashierAssignments := [3, 3]\<rparr>) = Inr r
       \<and> scalar_balancingEfficiency r = 100)
   \<and> (\<exists>r. Balancer_finish (Balancer_initialize 0 2) = Inr r
       \<and> scalar_balancingEfficiency r = 100)"
  using balancingEfficiency_min_over_max [of "(Balancer_initialize 2 2)
            \<lparr>cashierQueueLengths := [2, 4], customersForwarded := 6,
             cashierAssignments := [2, 4]\<rparr>"]
    balancingEfficiency_min_over_max [of "(Balancer_initialize 0 2)
            \<lparr>roundRobinCounter := 6, cashierQueueLengths := [3, 3], customersForwarded := 6,
             cashierAssignments := [3, 3]\<rparr>"]
    balancingEfficiency_min_over_max [of "Balancer_initialize 0 2"]
  by (simp add: Balancer_initialize_def numeral_2_eq_2)

subsection \<open>The balancer's bookkeeping\<close>

lemma wrap32_range: "- 2147483648 \<le> wrap32 x \<and> wrap32 x < 2147483648"
  unfolding wrap32_def by simp

lemma selectCashier_vectors:
  "selectCashier R b g = Inr (sel, b1, g1) \<Longrightarrow>
     cashierQueueLengths b1 = cashierQueueLengths b \<and> cashierAssignments b1 = cashierAssignments b"
  by (auto simp: selectCashier_def split: BalancingStrategy.splits if_splits prod.splits)

lemma Balancer_handleMessage_Inr:
  assumes "Balancer_handleMessage R msg b g = Inr (b', sent, g')"
  shows "(sent = None \<and> b' = b \<and> g' = g) \<or>
     (\<exists>sel c b1. msg = Customer c \<and> sent = Some (sel, c) \<and> selectCashier R b g = Inr (sel, b1, g')
        \<and> 0 \<le> sel \<and> nat sel < length (cashierQueueLengths b)
        \<and> nat sel < length (cashierAssignments b)
        \<and> cashierQueueLengths b' =
            (cashierQueueLengths b)[nat sel := wrap32 (cashierQueueLengths b ! nat sel + 1)]
        \<and> cashierAssignments b' =
            (cashierAssignments b)[nat sel := wrap32 (cashierAssignments b ! nat sel + 1)])"
proof (cases msg)
  case (Customer c)
  then obtain sel b1 g1 where sc: "selectCashier R b g = Inr (sel, b1, g1)"
    using assms by (auto simp: Balancer_handleMessage_def split: sum.splits)
  note v = selectCashier_vectors[OF sc]
  show ?thesis
    using assms Customer sc v
    by (auto simp: Balancer_handleMessage_def Let_def split: if_splits)
qed (use assms in \<open>auto simp: Balancer_handleMessage_def\<close>)

lemma reachable_balancer_inv: "reachable_balancer R b \<Longrightarrow> balancer_inv b"
proof (induction rule: reachable_balancer.induct)
  case (initial par_strategy gateSize)
  then show ?case by (simp add: balancer_inv_def Balancer_initialize_def)
next
  case (handled b msg g b' sent g')
  from Balancer_handleMessage_Inr[OF handled.hyps(2)] show ?case
  proof (elim disjE exE conjE)
    assume "b' = b" then show ?thesis using handled.IH by simp
  next
    fix sel c b1
    assume q: "cashierQueueLengths b' =
            (cashierQueueLengths b)[nat sel := wrap32 (cashierQueueLengths b ! nat sel + 1)]"
      and a: "cashierAssignments b' =
            (cashierAssignments b)[nat sel := wrap32 (cashierAssignments b ! nat sel + 1)]"
    have "\<forall>x \<in> set (cashierAssignments b'). - 2147483648 \<le> x \<and> x < 2147483648"
    proof
      fix x assume "x \<in> set (cashierAssignments b')"
      then have "x \<in> insert (wrap32 (cashierAssignments b ! nat sel + 1)) (set (cashierAssignments b))"
        using a set_update_subset_insert by fastforce
      then show "- 2147483648 \<le> x \<and> x < 2147483648"
        using handled.IH wrap32_range by (auto simp: balancer_inv_def)
    qed
    then show ?thesis using q a handled.IH by (simp add: balancer_inv_def)
  qed
qed

text \<open>
  Claim C10. In every reachable balancer state the locally tracked queue-length vector
  equals the assignment-count vector, element by element. Both start as all zeros; a
  handler invocation that routes a customer increments both at the selected index (as a
  C++ \<^verbatim>\<open>int\<close> is incremented) and changes nothing else in them; an invocation that
  routes nothing leaves both as they are; no count below \<^verbatim>\<open>INT_MAX\<close> ever becomes
  smaller. Consequently the shortest-queue strategy selects the first minimum of the
  cumulative assignment counts.
\<close>

theorem tracked_lengths_are_assignment_counts:
  assumes "reachable_balancer R b"
  shows "cashierQueueLengths b = cashierAssignments b
     \<and> cashierQueueLengths (Balancer_initialize par_strategy gateSize) = replicate gateSize 0
     \<and> cashierAssignments (Balancer_initialize par_strategy gateSize) = replicate gateSize 0
     \<and> (\<forall>msg g b' sent g'. Balancer_handleMessage R msg b g = Inr (b', sent, g') \<longrightarrow>
          (case sent of
             None \<Rightarrow> cashierQueueLengths b' = cashierQueueLengths b
                      \<and> cashierAssignments b' = cashierAssignments b
           | Some (sel, c) \<Rightarrow>
               0 \<le> sel \<and> nat sel < length (cashierAssignments b)
               \<and> cashierQueueLengths b' =
                   (cashierQueueLengths b)[nat sel := wrap32 (cashierQueueLengths b ! nat sel + 1)]
               \<and> cashierAssignments b' =
                   (cashierAssignments b)[nat sel := wrap32 (cashierAssignments b ! nat sel + 1)])
          \<and> length (cashierAssignments b') = length (cashierAssignments b)
          \<and> (\<forall>j < length (cashierAssignments b).
                cashierAssignments b ! j < 2147483647 \<longrightarrow>
                cashierAssignments b ! j \<le> cashierAssignments b' ! j))
     \<and> (strategy b = SHORTEST_QUEUE \<and> cashierAssignments b \<noteq> []
          \<and> length (cashierAssignments b) \<le> 2147483647 \<longrightarrow>
          (\<forall>g. \<exists>i. selectCashier R b g = Inr (int i, b, g)
                  \<and> first_minimum (cashierAssignments b) i))"
proof -
  have inv: "balancer_inv b" using assms by (rule reachable_balancer_inv)
  then have eq: "cashierQueueLengths b = cashierAssignments b"
    and rng: "\<forall>x \<in> set (cashierAssignments b). - 2147483648 \<le> x \<and> x < 2147483648"
    by (simp_all add: balancer_inv_def)
  have step: "(case sent of
             None \<Rightarrow> cashierQueueLengths b' = cashierQueueLengths b
                      \<and> cashierAssignments b' = cashierAssignments b
           | Some (sel, c) \<Rightarrow>
               0 \<le> sel \<and> nat sel < length (cashierAssignments b)
               \<and> cashierQueueLengths b' =
                   (cashierQueueLengths b)[nat sel := wrap32 (cashierQueueLengths b ! nat sel + 1)]
               \<and> cashierAssignments b' =
                   (cashierAssignments b)[nat sel := wrap32 (cashierAssignments b ! nat sel + 1)])
          \<and> length (cashierAssignments b') = length (cashierAssignments b)
          \<and> (\<forall>j < length (cashierAssignments b).
                cashierAssignments b ! j < 2147483647 \<longrightarrow>
                cashierAssignments b ! j \<le> cashierAssignments b' ! j)"
    if h: "Balancer_handleMessage R msg b g = Inr (b', sent, g')" for msg g b' sent g'
    using Balancer_handleMessage_Inr[OF h]
  proof (elim disjE exE conjE)
    assume "sent = None" "b' = b"
    then show ?thesis by simp
  next
    fix sel c b1
    assume s: "sent = Some (sel, c)" "0 \<le> sel" "nat sel < length (cashierAssignments b)"
      and q: "cashierQueueLengths b' =
            (cashierQueueLengths b)[nat sel := wrap32 (cashierQueueLengths b ! nat sel + 1)]"
      and a: "cashierAssignments b' =
            (cashierAssignments b)[nat sel := wrap32 (cashierAssignments b ! nat sel + 1)]"
    have mono: "cashierAssignments b ! j \<le> cashierAssignments b' ! j"
      if j: "j < length (cashierAssignments b)" "cashierAssignments b ! j < 2147483647" for j
    proof (cases "j = nat sel")
      case True
      have "- 2147483648 \<le> cashierAssignments b ! j" using rng j(1) by simp
      then have "wrap32 (cashierAssignments b ! j + 1) = cashierAssignments b ! j + 1"
        using j(2) by (intro wrap32_id) auto
      then show ?thesis using a True j(1) by simp
    next
      case False
      then show ?thesis using a by simp
    qed
    show ?thesis using s q a mono by simp
  qed
  have sq: "\<exists>i. selectCashier R b g = Inr (int i, b, g) \<and> first_minimum (cashierAssignments b) i"
    if h: "strategy b = SHORTEST_QUEUE \<and> cashierAssignments b \<noteq> []
          \<and> length (cashierAssignments b) \<le> 2147483647" for g
  proof -
    let ?i = "min_element (cashierAssignments b)"
    have fm: "first_minimum (cashierAssignments b) ?i"
      using h by (intro min_element_first_minimum) simp
    then have "?i < length (cashierAssignments b)" by (simp add: first_minimum_def)
    then have "wrap32 (int ?i) = int ?i" using h by (intro wrap32_id) auto
    then have "selectCashier R b g = Inr (int ?i, b, g)"
      using h eq by (simp add: selectCashier_def)
    then show ?thesis using fm by blast
  qed
  show ?thesis
    using eq step sq by (simp add: Balancer_initialize_def)
qed

theorem tracked_lengths_witness:
  "\<exists>b1. Balancer_handleMessage counting_rng
          (Customer \<lparr>addr = 0, customerId = 1, numberOfItems = 4, arrivalTime = 0,
                      serviceStartTime = 0, totalWaitingTime = 0\<rparr>)
          (Balancer_initialize 1 2) 0
        = Inr (b1, Some (0, \<lparr>addr = 0, customerId = 1, numberOfItems = 4, arrivalTime = 0,
                      serviceStartTime = 0, totalWaitingTime = 0\<rparr>), 0)
      \<and> reachable_balancer counting_rng b1
      \<and> cashierQueueLengths b1 = [1, 0]
      \<and> cashierAssignments b1 = [1, 0]
      \<and> selectCashier counting_rng b1 0 = Inr (1, b1, 0)"
proof -
  let ?c = "\<lparr>addr = 0, customerId = 1, numberOfItems = 4, arrivalTime = 0,
             serviceStartTime = 0, totalWaitingTime = (0::real)\<rparr>"
  let ?b0 = "Balancer_initialize 1 2"
  have r0: "reachable_balancer counting_rng ?b0" by (rule reachable_balancer.initial)
  have m0: "min_element (cashierQueueLengths ?b0) = 0"
    by (simp add: Balancer_initialize_def min_element_def numeral_2_eq_2)
  obtain b1 where h: "Balancer_handleMessage counting_rng (Customer ?c) ?b0 0 = Inr (b1, Some (0, ?c), 0)"
    using shortestQueue_step[of ?b0 counting_rng ?c 0] m0
    by (simp add: Balancer_initialize_def strategy_of_int_def)
  have r1: "reachable_balancer counting_rng b1"
    using r0 h by (rule reachable_balancer.handled)
  have st: "strategy b1 = SHORTEST_QUEUE"
    using h by (auto simp: Balancer_handleMessage_def selectCashier_def Balancer_initialize_def
        strategy_of_int_def Let_def split: if_splits)
  have w: "wrap32 1 = 1" by (simp add: wrap32_def)
  note step0 = tracked_lengths_are_assignment_counts[OF r0, of 1 2,
      THEN conjunct2, THEN conjunct2, THEN conjunct2, THEN conjunct1, rule_format, OF h]
  have a1: "cashierQueueLengths b1 = [1, 0]" "cashierAssignments b1 = [1, 0]"
    using step0 w by (simp_all add: Balancer_initialize_def numeral_2_eq_2)
  have fm: "first_minimum [1, 0] i \<Longrightarrow> i = Suc 0" for i
    by (auto simp: first_minimum_def less_Suc_eq)
  note sel1 = tracked_lengths_are_assignment_counts[OF r1, of 1 2,
      THEN conjunct2, THEN conjunct2, THEN conjunct2, THEN conjunct2, rule_format, of 0]
  have "\<exists>i. selectCashier counting_rng b1 0 = Inr (int i, b1, 0) \<and> first_minimum [1, 0] i"
    using sel1 st a1 by simp
  then have "selectCashier counting_rng b1 0 = Inr (1, b1, 0)"
    using fm by auto
  then show ?thesis using h r1 a1 by blast
qed

subsection \<open>Cashier: beginning a service\<close>

lemma serviceTime_loop_draws:
  "serviceTime_loop R n acc g = (acc + sum_list (service_draws R n g), after_service_draws R n g)"
  by (induction n arbitrary: acc g) (simp_all add: split_beta add.assoc)

lemma length_service_draws: "length (service_draws R n g) = n"
  by (induction n arbitrary: g) simp_all

lemma service_draws_in_range:
  "uniform_in_range R \<Longrightarrow> d \<in> set (service_draws R n g) \<Longrightarrow> 1 / 2 \<le> d \<and> d \<le> 2"
proof (induction n arbitrary: g)
  case 0
  then show ?case by simp
next
  case (Suc n)
  have "1 / 2 \<le> fst (uniform R 0.5 2.0 g) \<and> fst (uniform R 0.5 2.0 g) \<le> 2"
    using Suc.prems(1)[unfolded uniform_in_range_def, rule_format, of "5 / 10" "20 / 10" g]
    by simp
  then show ?case using Suc by auto
qed


lemma sum_list_service_draws_nonneg:
  assumes "uniform_in_range R"
  shows "0 \<le> sum_list (service_draws R n g)"
proof (rule sum_list_nonneg)
  fix d assume "d \<in> set (service_draws R n g)"
  then have "1 / 2 \<le> d" using service_draws_in_range[OF assms] by blast
  then show "0 \<le> d" by simp
qed

lemma startService_result:
  assumes "0 \<le> sum_list (service_draws R (nat (numberOfItems customer)) g)"
  shows "startService R now customer c g =
     Inr (c\<lparr>totalIdleTime := (if isBusy c then totalIdleTime c
                                else totalIdleTime c + (now - lastServiceEndTime c)),
            isBusy := True,
            currentCustomer := Some (customer\<lparr>serviceStartTime := now,
                                              totalWaitingTime := now - arrivalTime customer\<rparr>),
            cashierSignals := cashierSignals c
               @ (if isBusy c then [] else [IdleTime (now - lastServiceEndTime c)])
               @ [WaitingTime (now - arrivalTime customer),
                  ServiceTime (sum_list (service_draws R (nat (numberOfItems customer)) g))],
            customersServed := wrap32 (customersServed c + 1),
            totalServiceTime := totalServiceTime c
               + sum_list (service_draws R (nat (numberOfItems customer)) g),
            totalItemsProcessed := wrap32 (totalItemsProcessed c + numberOfItems customer),
            processCustomerTimer :=
               Some (now + sum_list (service_draws R (nat (numberOfItems customer)) g))\<rparr>,
          after_service_draws R (nat (numberOfItems customer)) g)"
  using assms
  by (simp add: startService_def Let_def serviceTime_loop_draws scheduleAt_def)

text \<open>
  Claim C3. When a cashier begins to serve a customer at time \<open>now\<close>, \<^verbatim>\<open>startService\<close>
  makes one \<open>uniform(0.5, 2.0)\<close> draw per item, each from the generator state the
  previous draw left (\<open>service_draws\<close> lists them, as many as the customer has items),
  and takes their sum as the service duration. It records the waiting time
  \<open>now - arrivalTime\<close> (and the service start time) on the customer, which becomes the
  customer in service, schedules the completion timer at \<open>now\<close> plus the duration, and
  increments the served count, the cumulative service time and the items processed. With
  a generator whose uniform draws lie between their bounds the call always succeeds.
\<close>

theorem startService_draws_one_uniform_per_item:
  assumes "uniform_in_range R"
  shows "\<exists>c'. startService R now customer c g =
            Inr (c', after_service_draws R (nat (numberOfItems customer)) g)
     \<and> length (service_draws R (nat (numberOfItems customer)) g) = nat (numberOfItems customer)
     \<and> isBusy c'
     \<and> currentCustomer c' =
          Some (customer\<lparr>serviceStartTime := now, totalWaitingTime := now - arrivalTime customer\<rparr>)
     \<and> processCustomerTimer c' =
          Some (now + sum_list (service_draws R (nat (numberOfItems customer)) g))
     \<and> customersServed c' = wrap32 (customersServed c + 1)
     \<and> totalServiceTime c' =
          totalServiceTime c + sum_list (service_draws R (nat (numberOfItems customer)) g)
     \<and> totalItemsProcessed c' = wrap32 (totalItemsProcessed c + numberOfItems customer)"
  using startService_result[OF sum_list_service_draws_nonneg[OF assms], of now customer c g]
  by (simp add: length_service_draws)

theorem startService_witness:
  "\<exists>c'. startService counting_rng 10
         \<lparr>addr = 0, customerId = 1, numberOfItems = 4, arrivalTime = 7,
           serviceStartTime = 0, totalWaitingTime = 0\<rparr>
         (Cashier_initialize 0 0) 0 = Inr (c', 4)
     \<and> isBusy c'
     \<and> currentCustomer c' = Some \<lparr>addr = 0, customerId = 1, numberOfItems = 4, arrivalTime = 7,
           serviceStartTime = 10, totalWaitingTime = 3\<rparr>
     \<and> processCustomerTimer c' = Some 12
     \<and> customersServed c' = 1
     \<and> totalServiceTime c' = 2
     \<and> totalItemsProcessed c' = 4"
proof -
  have u: "uniform_in_range counting_rng"
    by (simp add: uniform_in_range_def counting_rng_def)
  show ?thesis
    using startService_draws_one_uniform_per_item[OF u, of 10
        "\<lparr>addr = 0, customerId = 1, numberOfItems = 4, arrivalTime = 7,
           serviceStartTime = 0, totalWaitingTime = 0\<rparr>" "Cashier_initialize 0 0" 0]
    by (simp add: Cashier_initialize_def counting_rng_def wrap32_def eval_nat_numeral)
qed

subsection \<open>Cashier: busy flag and in-service slot\<close>

lemma startService_Inr:
  assumes "startService R now customer c g = Inr (c', g')"
  shows "isBusy c' \<and> customerQueue c' = customerQueue c
     \<and> (\<exists>x. currentCustomer c' = Some x \<and> addr x = addr customer)"
  using assms
  by (auto simp: startService_def Let_def scheduleAt_def split: prod.splits if_splits)

lemma processNextCustomer_inv:
  assumes "processNextCustomer R now c g = Inr (c', g')"
    and "distinct (map addr (customerQueue c))"
    and "currentCustomer c = None"
  shows "cashier_inv c'"
proof (cases "customerQueue c")
  case Nil
  then show ?thesis using assms
    by (auto simp: processNextCustomer_def cashier_inv_def)
next
  case (Cons x rest)
  then have s: "startService R now x
      (c\<lparr>customerQueue := rest,
         cashierSignals := cashierSignals c @ [QueueLength (int (length rest))]\<rparr>) g = Inr (c', g')"
    using assms(1) by (simp add: processNextCustomer_def)
  from startService_Inr[OF s] Cons assms(2) show ?thesis
    by (auto simp: cashier_inv_def)
qed

lemma Cashier_handleMessage_inv:
  assumes "cashier_inv c"
    and "Cashier_handleMessage R now msg c g = Inr (c', g')"
    and "\<forall>customer. msg = Customer customer \<longrightarrow> addr customer \<notin> held_addrs c"
  shows "cashier_inv c'"
proof (cases msg)
  case Timer
  then have "processNextCustomer R now (finishService now (c\<lparr>processCustomerTimer := None\<rparr>)) g
      = Inr (c', g')"
    using assms(2) by (simp add: Cashier_handleMessage_def)
  moreover have "distinct (map addr (customerQueue (finishService now (c\<lparr>processCustomerTimer := None\<rparr>))))"
    using assms(1) by (simp add: finishService_def cashier_inv_def split: option.splits)
  moreover have "currentCustomer (finishService now (c\<lparr>processCustomerTimer := None\<rparr>)) = None"
    by (simp add: finishService_def split: option.splits)
  ultimately show ?thesis by (rule processNextCustomer_inv)
next
  case (Customer customer)
  then have fresh: "addr customer \<notin> held_addrs c" using assms(3) by simp
  show ?thesis
  proof (cases "isBusy c")
    case True
    then have "c' = c\<lparr>customerQueue := customerQueue c @ [customer],
                     cashierSignals :=
                       cashierSignals c @ [QueueLength (int (length (customerQueue c)) + 1)]\<rparr>"
      using assms(2) Customer by (simp add: Cashier_handleMessage_def Let_def)
    then show ?thesis using assms(1) fresh True
      by (auto simp: cashier_inv_def held_addrs_def)
  next
    case False
    then have "processNextCustomer R now (c\<lparr>customerQueue := customerQueue c @ [customer],
                     cashierSignals :=
                       cashierSignals c @ [QueueLength (int (length (customerQueue c)) + 1)]\<rparr>) g
        = Inr (c', g')"
      using assms(2) Customer by (simp add: Cashier_handleMessage_def Let_def)
    moreover have "distinct (map addr (customerQueue (c\<lparr>customerQueue := customerQueue c @ [customer],
                     cashierSignals :=
                       cashierSignals c @ [QueueLength (int (length (customerQueue c)) + 1)]\<rparr>)))"
      using assms(1) False by (simp add: cashier_inv_def)
    moreover have "currentCustomer (c\<lparr>customerQueue := customerQueue c @ [customer],
                     cashierSignals :=
                       cashierSignals c @ [QueueLength (int (length (customerQueue c)) + 1)]\<rparr>) = None"
      using assms(1) False by (simp add: cashier_inv_def)
    ultimately show ?thesis by (rule processNextCustomer_inv)
  qed
next
  case Other
  then show ?thesis using assms by (simp add: Cashier_handleMessage_def)
qed

lemma reachable_cashier_inv: "reachable_cashier R c \<Longrightarrow> cashier_inv c"
proof (induction rule: reachable_cashier.induct)
  case (initial now idx)
  then show ?case by (simp add: cashier_inv_def Cashier_initialize_def)
next
  case (arrival c customer now g c' g')
  show ?case
    by (rule Cashier_handleMessage_inv[OF arrival.IH arrival.hyps(3)]) (use arrival.hyps(2) in simp)
next
  case (completion c due g c' g')
  show ?case
    by (rule Cashier_handleMessage_inv[OF completion.IH completion.hyps(3)]) simp
next
  case (other c now g c' g')
  show ?case
    by (rule Cashier_handleMessage_inv[OF other.IH other.hyps(2)]) simp
qed

text \<open>
  Claim C4. In every cashier state that is reachable between two handler invocations,
  \<open>isBusy\<close> holds exactly when a customer occupies the in-service slot
  \<open>currentCustomer\<close>, and the customer in service is not one of the objects in the
  queue. The initial state is idle with an empty in-service slot.
\<close>

theorem busy_iff_customer_in_service:
  assumes "reachable_cashier R c"
  shows "(isBusy c \<longleftrightarrow> currentCustomer c \<noteq> None)
     \<and> (\<forall>x. currentCustomer c = Some x \<longrightarrow> addr x \<notin> addr ` set (customerQueue c))
     \<and> \<not> isBusy (Cashier_initialize now idx)
     \<and> currentCustomer (Cashier_initialize now idx) = None"
  using reachable_cashier_inv[OF assms]
  by (auto simp: cashier_inv_def Cashier_initialize_def split: option.splits)

theorem busy_cashier_witness:
  "\<exists>c2. reachable_cashier counting_rng c2
      \<and> isBusy c2
      \<and> map_option addr (currentCustomer c2) = Some 0
      \<and> map addr (customerQueue c2) = [1]"
proof -
  let ?A = "\<lparr>addr = 0, customerId = 1, numberOfItems = 4, arrivalTime = 1,
             serviceStartTime = 0, totalWaitingTime = (0::real)\<rparr>"
  let ?B = "\<lparr>addr = 1, customerId = 2, numberOfItems = 2, arrivalTime = 2,
             serviceStartTime = 0, totalWaitingTime = (0::real)\<rparr>"
  let ?c0 = "Cashier_initialize 0 0"
  have u: "0 \<le> sum_list (service_draws counting_rng n g)" for n g
    by (rule sum_list_service_draws_nonneg) (simp add: uniform_in_range_def counting_rng_def)
  have r0: "reachable_cashier counting_rng ?c0" by (rule reachable_cashier.initial)
  obtain c1 g1 where h1: "Cashier_handleMessage counting_rng 1 (Customer ?A) ?c0 0 = Inr (c1, g1)"
    and c1: "isBusy c1" "customerQueue c1 = []" "map_option addr (currentCustomer c1) = Some 0"
    by (simp add: Cashier_handleMessage_def processNextCustomer_def Cashier_initialize_def
        startService_result[OF u])
  have r1: "reachable_cashier counting_rng c1"
    using r0 _ h1 by (rule reachable_cashier.arrival) (simp add: held_addrs_def Cashier_initialize_def)
  obtain c2 g2 where h2: "Cashier_handleMessage counting_rng 2 (Customer ?B) c1 g1 = Inr (c2, g2)"
    and c2: "customerQueue c2 = [?B]" "currentCustomer c2 = currentCustomer c1"
    using c1 by (simp add: Cashier_handleMessage_def)
  have r2: "reachable_cashier counting_rng c2"
    using r1 _ h2 by (rule reachable_cashier.arrival) (use c1 in \<open>auto simp: held_addrs_def\<close>)
  show ?thesis
    using busy_iff_customer_in_service[OF r2, of 0 0] r2 c1 c2 by auto
qed

subsection \<open>Cashier: idle time\<close>

lemma idle_since_state: "idle_since R t0 c \<Longrightarrow> \<not> isBusy c \<and> lastServiceEndTime c = t0"
proof (induction rule: idle_since.induct)
  case (at_start t0 idx)
  then show ?case by (simp add: Cashier_initialize_def)
next
  case (after_completion t0 c0 g0 c g)
  let ?c1 = "finishService t0 (c0\<lparr>processCustomerTimer := None\<rparr>)"
  have p: "processNextCustomer R t0 ?c1 g0 = Inr (c, g)"
    using after_completion.hyps(1) by (simp add: Cashier_handleMessage_def)
  show ?case
  proof (cases "customerQueue ?c1")
    case Nil
    then show ?thesis using p by (auto simp: processNextCustomer_def)
  next
    case (Cons x rest)
    then have "startService R t0 x (?c1\<lparr>customerQueue := rest,
         cashierSignals := cashierSignals ?c1 @ [QueueLength (int (length rest))]\<rparr>) g0 = Inr (c, g)"
      using p by (simp add: processNextCustomer_def)
    from startService_Inr[OF this] after_completion.hyps(2) show ?thesis by simp
  qed
next
  case (no_arrival t0 c t g c' g')
  then show ?case by (simp add: Cashier_handleMessage_def)
qed

lemma idle_arrival_adds_idle_time:
  assumes "\<not> isBusy c" and "uniform_in_range R"
  shows "\<exists>c' g'. Cashier_handleMessage R t1 (Customer customer) c g = Inr (c', g')
     \<and> totalIdleTime c' = totalIdleTime c + (t1 - lastServiceEndTime c)"
proof -
  let ?c1 = "c\<lparr>customerQueue := customerQueue c @ [customer],
               cashierSignals :=
                 cashierSignals c @ [QueueLength (int (length (customerQueue c)) + 1)]\<rparr>"
  obtain x rest where q: "customerQueue ?c1 = x # rest"
    by (cases "customerQueue ?c1") auto
  have nn: "0 \<le> sum_list (service_draws R (nat (numberOfItems x)) g)"
    using assms(2) by (rule sum_list_service_draws_nonneg)
  show ?thesis
    using assms(1) q
    by (simp add: Cashier_handleMessage_def Let_def processNextCustomer_def
        startService_result[OF nn])
qed

text \<open>
  Claim C8. A cashier that has been idle since \<open>t0\<close> and sees no arrival before
  \<open>t1\<close> has its cumulative idle time increased by exactly \<open>t1 - t0\<close>: by the handler
  of the arrival at \<open>t1\<close> that ends the idle interval, or, when the run ends at \<open>t1\<close>
  with the cashier still idle, by \<^verbatim>\<open>finish\<close>, which adds the terminal idle interval to
  the total it records.
\<close>

theorem idle_interval_added_to_idle_time:
  assumes "idle_since R t0 c" and "uniform_in_range R"
  shows "(\<exists>c' g'. Cashier_handleMessage R t1 (Customer customer) c g = Inr (c', g')
            \<and> totalIdleTime c' = totalIdleTime c + (t1 - t0))
       \<and> scalar_totalIdleTime (Cashier_finish t1 c) = totalIdleTime c + (t1 - t0)"
proof -
  have i: "\<not> isBusy c" "lastServiceEndTime c = t0"
    using idle_since_state[OF assms(1)] by simp_all
  show ?thesis
    using idle_arrival_adds_idle_time[OF i(1) assms(2), of t1 customer g] i
    by (simp add: Cashier_finish_def Let_def)
qed

theorem idle_interval_witness:
  "\<exists>c2. idle_since counting_rng 3 c2
      \<and> totalIdleTime c2 = 1
      \<and> (\<exists>c' g'. Cashier_handleMessage counting_rng 5
             (Customer \<lparr>addr = 1, customerId = 2, numberOfItems = 2, arrivalTime = 5,
                         serviceStartTime = 0, totalWaitingTime = 0\<rparr>) c2 4 = Inr (c', g')
            \<and> totalIdleTime c' = 3)
      \<and> scalar_totalIdleTime (Cashier_finish 5 c2) = 3"
proof -
  let ?A = "\<lparr>addr = 0, customerId = 1, numberOfItems = 4, arrivalTime = 1,
             serviceStartTime = 0, totalWaitingTime = (0::real)\<rparr>"
  let ?B = "\<lparr>addr = 1, customerId = 2, numberOfItems = 2, arrivalTime = 5,
             serviceStartTime = 0, totalWaitingTime = (0::real)\<rparr>"
  let ?c0 = "Cashier_initialize 0 0"
  have ur: "uniform_in_range counting_rng"
    by (simp add: uniform_in_range_def counting_rng_def)
  have u: "0 \<le> sum_list (service_draws counting_rng n g)" for n g
    using ur by (rule sum_list_service_draws_nonneg)
  have a: "after_service_draws counting_rng 4 0 = 4"
    by (simp add: counting_rng_def eval_nat_numeral)
  obtain c1 where h1: "Cashier_handleMessage counting_rng 1 (Customer ?A) ?c0 0 = Inr (c1, 4)"
    and c1: "customerQueue c1 = []" "totalIdleTime c1 = 1"
    by (simp add: Cashier_handleMessage_def processNextCustomer_def Cashier_initialize_def
        startService_result[OF u] a)
  have "\<exists>c2. Cashier_handleMessage counting_rng 3 Timer c1 4 = Inr (c2, 4)
      \<and> \<not> isBusy c2 \<and> totalIdleTime c2 = 1"
    using c1 by (cases "currentCustomer c1")
      (simp_all add: Cashier_handleMessage_def processNextCustomer_def finishService_def)
  then obtain c2 where h2: "Cashier_handleMessage counting_rng 3 Timer c1 4 = Inr (c2, 4)"
    and c2: "\<not> isBusy c2" "totalIdleTime c2 = 1"
    by blast
  have i: "idle_since counting_rng 3 c2"
    using h2 c2(1) by (rule idle_since.after_completion)
  show ?thesis
    using idle_interval_added_to_idle_time[OF i ur, of 5 ?B 4] i c2 by auto
qed

subsection \<open>Cashier: the recorded rates\<close>

text \<open>
  Claim C5 as stated fails: the rates \<^verbatim>\<open>finish\<close> records are percentages. A cashier
  that receives no customer in a run ending at time 2 was idle for 2 of 2 time units and
  records an idle rate of 100; a cashier that served 2 time units in a run ending at time
  4 records a utilization rate of 50.
\<close>

theorem finish_rates_are_ratios_counterexample:
  "scalar_idleRate (Cashier_finish 2 (Cashier_initialize 0 0))
     \<noteq> scalar_totalIdleTime (Cashier_finish 2 (Cashier_initialize 0 0)) / 2
   \<and> scalar_idleRate (Cashier_finish 2 (Cashier_initialize 0 0)) = 100
   \<and> scalar_totalIdleTime (Cashier_finish 2 (Cashier_initialize 0 0)) / 2 = 1
   \<and> (case Cashier_handleMessage counting_rng 1
             (Customer \<lparr>addr = 0, customerId = 1, numberOfItems = 4, arrivalTime = 1,
                         serviceStartTime = 0, totalWaitingTime = 0\<rparr>)
             (Cashier_initialize 0 0) 0 of
         Inl e \<Rightarrow> False
       | Inr (c1, g1) \<Rightarrow>
           scalar_utilizationRate (Cashier_finish 4 c1) = 50
           \<and> scalar_totalServiceTime (Cashier_finish 4 c1) / 4 = 1 / 2)"
proof -
  have u: "0 \<le> sum_list (service_draws counting_rng n g)" for n g
    by (rule sum_list_service_draws_nonneg) (simp add: uniform_in_range_def counting_rng_def)
  have d: "sum_list (service_draws counting_rng 4 0) = 2"
    by (simp add: counting_rng_def eval_nat_numeral)
  show ?thesis
    by (simp add: Cashier_handleMessage_def processNextCustomer_def startService_result[OF u]
        Cashier_finish_def Cashier_initialize_def Let_def d)
qed

text \<open>
  Claim C5, amended. \<^verbatim>\<open>Cashier::finish\<close> adds the terminal idle interval to the idle
  time of an idle cashier and then records, for a positive elapsed time, the utilization
  rate \<open>cumulativeServiceTime / elapsed * 100\<close> and the idle rate
  \<open>cumulativeIdleTime / elapsed * 100\<close>, and 0 for both when no time has elapsed. The
  average service time it records is \<open>cumulativeServiceTime / served\<close>, and 0 when
  nobody was served.
\<close>

theorem finish_rates_are_percentages:
  "scalar_totalServiceTime (Cashier_finish now c) = totalServiceTime c
   \<and> scalar_totalIdleTime (Cashier_finish now c) =
       (if isBusy c then totalIdleTime c else totalIdleTime c + (now - lastServiceEndTime c))
   \<and> (0 < now \<longrightarrow>
        scalar_utilizationRate (Cashier_finish now c)
          = scalar_totalServiceTime (Cashier_finish now c) / now * 100
        \<and> scalar_idleRate (Cashier_finish now c)
          = scalar_totalIdleTime (Cashier_finish now c) / now * 100)
   \<and> (now \<le> 0 \<longrightarrow>
        scalar_utilizationRate (Cashier_finish now c) = 0
        \<and> scalar_idleRate (Cashier_finish now c) = 0)
   \<and> (0 < customersServed c \<longrightarrow>
        scalar_averageServiceTime (Cashier_finish now c)
          = totalServiceTime c / real_of_int (customersServed c))
   \<and> (customersServed c \<le> 0 \<longrightarrow> scalar_averageServiceTime (Cashier_finish now c) = 0)"
  by (simp add: Cashier_finish_def Let_def)

theorem finish_rates_witness:
  "scalar_utilizationRate
       (Cashier_finish 4 ((Cashier_initialize 0 0)\<lparr>customersServed := 2, totalServiceTime := 3,
          lastServiceEndTime := 3\<rparr>)) = 75
   \<and> scalar_idleRate
       (Cashier_finish 4 ((Cashier_initialize 0 0)\<lparr>customersServed := 2, totalServiceTime := 3,
          lastServiceEndTime := 3\<rparr>)) = 25
   \<and> scalar_averageServiceTime
       (Cashier_finish 4 ((Cashier_initialize 0 0)\<lparr>customersServed := 2, totalServiceTime := 3,
          lastServiceEndTime := 3\<rparr>)) = 3 / 2
   \<and> scalar_utilizationRate (Cashier_finish 0 (Cashier_initialize 0 0)) = 0
   \<and> scalar_idleRate (Cashier_finish 0 (Cashier_initialize 0 0)) = 0
   \<and> scalar_averageServiceTime (Cashier_finish 0 (Cashier_initialize 0 0)) = 0"
  using finish_rates_are_percentages [of 4 "(Cashier_initialize 0 0)\<lparr>customersServed := 2,
          totalServiceTime := 3, lastServiceEndTime := 3\<rparr>"]
    finish_rates_are_percentages [of 0 "Cashier_initialize 0 0"]
  by (simp add: Cashier_initialize_def)

subsection \<open>Shop: initialisation\<close>

text \<open>
  Claim C6 as stated fails: \<^verbatim>\<open>Shop::initialize\<close> reads the configured mean and checks
  nothing. With the mean \<open>-1\<close> it returns a running shop whose first arrival is
  scheduled.
\<close>

theorem nonpositive_mean_rejected_counterexample:
  "Shop_initialize 0 (- 1) =
     Inr \<lparr>generateCustomerTimer = Some (1 / 10), customerCounter = 1, arrivalInterval = - 1,
          customersGenerated = 0, shopSignals = []\<rparr>"
  by (simp add: Shop_initialize_def scheduleAt_def)

lemma Shop_handleMessage_Timer:
  "Shop_handleMessage R now fresh Timer s g =
     (let items = fst (intuniform R 1 25 g);
          g1 = snd (intuniform R 1 25 g);
          nextArrival = fst (exponential R (arrivalInterval s) g1);
          g2 = snd (exponential R (arrivalInterval s) g1)
      in if nextArrival < 0 then Inl InvalidScheduleError
         else Inr (s\<lparr>generateCustomerTimer := Some (now + nextArrival),
                      customerCounter := wrap32 (customerCounter s + 1),
                      customersGenerated := wrap32 (customersGenerated s + 1),
                      shopSignals := shopSignals s
                        @ [CustomerGenerated (wrap32 (customersGenerated s + 1)),
                           InterArrivalTime nextArrival]\<rparr>,
                   Some (fresh\<lparr>customerId := customerCounter s, numberOfItems := items,
                                arrivalTime := now\<rparr>),
                   g2))"
  by (simp add: Shop_handleMessage_def generateCustomer_def scheduleAt_def Let_def split_beta)

text \<open>
  Claim C6, amended. \<^verbatim>\<open>Shop::initialize\<close> makes no draw and accepts every configured
  mean arrival interval, also a non-positive one: it stores the mean and schedules the
  first arrival a tenth of a second after the current time, so the run starts. A failure
  surfaces only afterwards: when an arrival handler draws a negative gap, rescheduling
  fails with \<open>InvalidScheduleError\<close>.
\<close>

theorem Shop_initialize_accepts_every_mean:
  "(\<exists>s. Shop_initialize now mean = Inr s
        \<and> arrivalInterval s = mean
        \<and> generateCustomerTimer s = Some (now + 1 / 10)
        \<and> customerCounter s = 1
        \<and> customersGenerated s = 0
        \<and> (\<forall>(R::'g rng) due fresh g.
              fst (exponential R mean (snd (intuniform R 1 25 g))) < 0 \<longrightarrow>
              Shop_handleMessage R due fresh Timer s g = Inl InvalidScheduleError))"
  by (simp add: Shop_initialize_def scheduleAt_def Shop_handleMessage_Timer Let_def)

theorem Shop_initialize_negative_mean_witness:
  "\<exists>s. Shop_initialize 0 (- 1) = Inr s
      \<and> arrivalInterval s = - 1
      \<and> generateCustomerTimer s = Some (1 / 10)
      \<and> Shop_handleMessage counting_rng (1 / 10)
           \<lparr>addr = 0, customerId = 0, numberOfItems = 0, arrivalTime = 0,
             serviceStartTime = 0, totalWaitingTime = 0\<rparr> Timer s 0 = Inl InvalidScheduleError"
proof -
  have neg: "fst (exponential counting_rng (- 1) (snd (intuniform counting_rng 1 25 (0::nat)))) < 0"
    by (simp add: counting_rng_def)
  obtain s where s: "Shop_initialize 0 (- 1) = Inr s" "arrivalInterval s = - 1"
      "generateCustomerTimer s = Some (0 + 1 / 10)"
    and late: "\<forall>(R::nat rng) due fresh g.
              fst (exponential R (- 1) (snd (intuniform R 1 25 g))) < 0 \<longrightarrow>
              Shop_handleMessage R due fresh Timer s g = Inl InvalidScheduleError"
    using Shop_initialize_accepts_every_mean [where ?'g = nat, of 0 "- 1"] by blast
  show ?thesis
    using s late[rule_format, OF neg] by simp
qed

subsection \<open>Shop: arrival events\<close>





end
